theory Spec2Isabelle
  imports Main "HOL-Library.Word" "HOL-Library.Sublist" "HOL-Library.AList"
    "HOL-Library.Signed_Division"
begin

section \<open>JavaScript values used by the hooks\<close>

text \<open>
  A JavaScript string is a sequence of UTF-16 code units; \<open>length\<close>, \<open>slice\<close>,
  \<open>startsWith\<close> and \<open>repeat\<close> all count code units. Usage counts, key codes and
  timestamps are the integer-valued \<open>number\<close>s the program stores, modelled as \<open>int\<close>.
  \<open>str\<close> writes an ASCII literal as code units.
\<close>

type_synonym code_unit = "16 word"
type_synonym jsstring = "code_unit list"

definition str :: "string \<Rightarrow> jsstring" where
  "str s = map (\<lambda>c. of_nat (of_char c)) s"

text \<open>
  A comparator returns a number, which may be \<open>NaN\<close>; \<open>SortCompare\<close> reads \<open>NaN\<close>
  as \<open>+0\<close>.
\<close>

datatype jsnumber = Finite int | NaN

definition sortCompare :: "jsnumber \<Rightarrow> int" where
  "sortCompare v = (case v of NaN \<Rightarrow> 0 | Finite i \<Rightarrow> i)"

text \<open>
  \<open>Array.prototype.sort(cmp)\<close> is a stable sort: for a comparator that is a consistent
  ordering the result is the one stable sorted arrangement, which insertion from the right
  builds. An element goes before the first element it does not compare greater than. Of
  two elements that compare as \<open>+0\<close> both ways, every stable sort keeps the first in
  front.
\<close>

fun insert_by :: "('a \<Rightarrow> 'a \<Rightarrow> int) \<Rightarrow> 'a \<Rightarrow> 'a list \<Rightarrow> 'a list" where
  "insert_by cmp x [] = [x]"
| "insert_by cmp x (y # ys) =
     (if cmp x y \<le> 0 then x # y # ys else y # insert_by cmp x ys)"

definition array_sort :: "('a \<Rightarrow> 'a \<Rightarrow> int) \<Rightarrow> 'a list \<Rightarrow> 'a list" where
  "array_sort cmp xs = foldr (insert_by cmp) xs []"

text \<open>\<open>s.slice(n)\<close> for \<open>n \<ge> 0\<close>, and \<open>s.slice(-n)\<close> (the last \<open>n\<close> code units,
  the whole string when it is shorter).\<close>

definition slice_from :: "nat \<Rightarrow> jsstring \<Rightarrow> jsstring" where
  "slice_from n s = drop n s"

definition slice_last :: "nat \<Rightarrow> jsstring \<Rightarrow> jsstring" where
  "slice_last n s = drop (length s - n) s"

definition slice_to :: "nat \<Rightarrow> jsstring \<Rightarrow> jsstring" where
  "slice_to n s = take n s"

definition repeat :: "jsstring \<Rightarrow> nat \<Rightarrow> jsstring" where
  "repeat s n = concat (replicate n s)"

section \<open>useInlineHistoryCompletion\<close>

subsection \<open>The count map and its pruning\<close>

text \<open>
  A \<open>Record<string, number>\<close> is the list of its entries in property order, as
  \<open>Object.entries\<close> enumerates them; an object has each key once, and a lookup
  reads the entries (the record's own properties, as its type says).
  \<open>Object.fromEntries\<close> adds the entries from left to right, a later entry of a key
  replacing the value of an earlier one in place.
\<close>

type_synonym count_record = "(jsstring \<times> int) list"

definition MAX_COUNT_RECORDS :: nat where
  "MAX_COUNT_RECORDS = 100"

definition fromEntries :: "(jsstring \<times> int) list \<Rightarrow> count_record" where
  "fromEntries es = foldl (\<lambda>acc (k, v). AList.update k v acc) [] es"

definition cleanupCounts :: "count_record \<Rightarrow> count_record" where
  "cleanupCounts counts =
     (let entries = counts in
      if length entries \<le> MAX_COUNT_RECORDS then counts
      else
        let sorted = array_sort (\<lambda>a b. snd b - snd a) entries;
            kept = take MAX_COUNT_RECORDS sorted
        in fromEntries kept)"

subsection \<open>The store\<close>

text \<open>
  The local store as the hook sees it: the list \<open>loadHistory()\<close> returns, the record
  \<open>loadCounts()\<close> returns (kept under the key \<open>chat-input-history-counts\<close>), and
  whether \<open>localStorage.setItem\<close> throws (quota exceeded).
\<close>

record store =
  history :: "jsstring list"
  counts :: count_record
  quotaExceeded :: bool

datatype error = QuotaExceededError

definition setItem_counts :: "count_record \<Rightarrow> store \<Rightarrow> error + store" where
  "setItem_counts c st =
     (if quotaExceeded st then Inl QuotaExceededError else Inr (st\<lparr>counts := c\<rparr>))"

subsection \<open>The match search\<close>

text \<open>
  The count record is a plain object (what \<open>JSON.parse\<close> and \<open>Object.fromEntries\<close>
  build), so a lookup \<open>obj[a]\<close> that finds no entry of its own goes on to
  \<open>Object.prototype\<close>: for one of that object's property names it reads the inherited
  function (for \<open>__proto__\<close>, the prototype object itself), and \<open>undefined\<close> for
  every other name.
\<close>

datatype jsvalue = Number int | Inherited jsstring

definition objectPrototypeNames :: "jsstring list" where
  "objectPrototypeNames =
     [str ''constructor'', str ''hasOwnProperty'', str ''isPrototypeOf'',
      str ''propertyIsEnumerable'', str ''toLocaleString'', str ''toString'',
      str ''valueOf'', str ''__proto__'', str ''__defineGetter__'',
      str ''__defineSetter__'', str ''__lookupGetter__'', str ''__lookupSetter__'']"

definition getProperty :: "count_record \<Rightarrow> jsstring \<Rightarrow> jsvalue option" where
  "getProperty obj a =
     (case map_of obj a of
        Some c \<Rightarrow> Some (Number c)
      | None \<Rightarrow> if a \<in> set objectPrototypeNames then Some (Inherited a) else None)"

text \<open>\<open>cleanedCounts[a] || 0\<close>: \<open>undefined\<close> and \<open>0\<close> are falsy, every other
  number of the record and every inherited function or object is truthy.\<close>

definition countOf :: "count_record \<Rightarrow> jsstring \<Rightarrow> jsvalue" where
  "countOf cleanedCounts a =
     (case getProperty cleanedCounts a of
        None \<Rightarrow> Number 0
      | Some (Number c) \<Rightarrow> if c = 0 then Number 0 else Number c
      | Some (Inherited name) \<Rightarrow> Inherited name)"

text \<open>\<open>x - y\<close>: the difference of two numbers; a function or an object converts to
  \<open>NaN\<close>, and so does the difference.\<close>

definition subtract :: "jsvalue \<Rightarrow> jsvalue \<Rightarrow> jsnumber" where
  "subtract x y =
     (case x of
        Number a \<Rightarrow> (case y of Number b \<Rightarrow> Finite (a - b) | Inherited name \<Rightarrow> NaN)
      | Inherited name \<Rightarrow> NaN)"

definition compareMatches :: "count_record \<Rightarrow> jsstring \<Rightarrow> jsstring \<Rightarrow> jsnumber" where
  "compareMatches cleanedCounts a b =
     (let countA = countOf cleanedCounts a;
          countB = countOf cleanedCounts b
      in if countB \<noteq> countA then subtract countB countA
         else Finite (int (length a) - int (length b)))"



text \<open>The history items that pass the filter; \<open>toLowerCase\<close> is the built-in
  \<open>String.prototype.toLowerCase\<close>, a parameter of the model.\<close>

definition isMatch :: "(jsstring \<Rightarrow> jsstring) \<Rightarrow> jsstring \<Rightarrow> jsstring \<Rightarrow> bool" where
  "isMatch toLowerCase query item =
     (let queryLower = toLowerCase query;
          itemLower = toLowerCase item
      in prefix queryLower itemLower \<and> length item > length query)"

definition findBestMatch ::
  "(jsstring \<Rightarrow> jsstring) \<Rightarrow> int \<Rightarrow> bool \<Rightarrow> store \<Rightarrow> jsstring \<Rightarrow> jsstring option \<times> store"
where
  "findBestMatch toLowerCase minQueryLength enabled st query =
     (if \<not> enabled \<or> int (length query) < minQueryLength then (None, st)
      else
        let cleanedCounts = cleanupCounts (counts st);
            st' = (if length cleanedCounts \<noteq> length (counts st)
                   then (case setItem_counts cleanedCounts st of
                           Inr saved \<Rightarrow> saved
                         | Inl err \<Rightarrow> st)
                   else st);
            matches = filter (isMatch toLowerCase query) (history st)
        in if length matches = 0 then (None, st')
           else
             let sorted = array_sort (\<lambda>a b. sortCompare (compareMatches cleanedCounts a b))
                            matches
             in (case sorted of m # rest \<Rightarrow> (Some m, st') | [] \<Rightarrow> (None, st')))"

text \<open>An instance of \<open>toLowerCase\<close> for ASCII text: the letters A to Z move to a to z,
  every other code unit stays.\<close>

definition asciiLower :: "jsstring \<Rightarrow> jsstring" where
  "asciiLower s = map (\<lambda>c. if 65 \<le> c \<and> c \<le> 90 then c + 32 else c) s"

subsection \<open>The hook's state and operations\<close>

text \<open>
  \<open>cleanText\<close>: the zero-width code units U+200B to U+200D and U+FEFF are
  removed from the text, then the white space and line terminators of ECMAScript at both ends.
\<close>

definition isZeroWidth :: "code_unit \<Rightarrow> bool" where
  "isZeroWidth c = ((0x200B \<le> c \<and> c \<le> 0x200D) \<or> c = 0xFEFF)"

definition isWhiteSpace :: "code_unit \<Rightarrow> bool" where
  "isWhiteSpace c =
     (c \<in> set [0x9, 0xA, 0xB, 0xC, 0xD, 0x20, 0xA0, 0x1680, 0x2028, 0x2029, 0x202F,
                0x205F, 0x3000, 0xFEFF]
      \<or> (0x2000 \<le> c \<and> c \<le> 0x200A))"

definition trim :: "jsstring \<Rightarrow> jsstring" where
  "trim s = rev (dropWhile isWhiteSpace (rev (dropWhile isWhiteSpace s)))"

definition cleanText :: "jsstring \<Rightarrow> jsstring" where
  "cleanText text = trim (filter (\<lambda>c. \<not> isZeroWidth c) text)"

text \<open>
  The state cells of the hook, with every update that has been scheduled: the values the
  next render sees. \<open>debounceTimer\<close> is the pending timer callback, if any: the
  \<open>cleanText\<close> it closes over and the \<open>enabled\<close> value its \<open>findBestMatch\<close>
  closes over. A callback closes over the values of the render that made it; the setters
  it calls change what the next render sees, not what it has closed over.
\<close>

record hook_state =
  suffix :: jsstring
  fullSuggestion :: "jsstring option"
  enabled :: bool
  debounceTimer :: "(jsstring \<times> bool) option"
  lastQuery :: jsstring

definition initial :: "bool \<Rightarrow> hook_state" where
  "initial isEnabled =
     \<lparr>suffix = [], fullSuggestion = None, enabled = isEnabled,
      debounceTimer = None, lastQuery = []\<rparr>"

definition clearSuggestion :: "hook_state \<Rightarrow> hook_state" where
  "clearSuggestion h = h\<lparr>suffix := [], fullSuggestion := None\<rparr>"

definition updateQuery :: "int \<Rightarrow> jsstring \<Rightarrow> hook_state \<Rightarrow> hook_state" where
  "updateQuery minQueryLength text h =
     (let h1 = h\<lparr>debounceTimer := None\<rparr>;
          ct = cleanText text
      in if ct = [] \<or> int (length ct) < minQueryLength
         then (clearSuggestion h1)\<lparr>lastQuery := []\<rparr>
         else h1\<lparr>debounceTimer := Some (ct, enabled h)\<rparr>)"

text \<open>The timer callback of \<open>updateQuery\<close>; \<open>if (match)\<close> holds for a string that is
  neither \<open>null\<close> nor empty.\<close>

definition debounceFired ::
  "(jsstring \<Rightarrow> jsstring) \<Rightarrow> int \<Rightarrow> hook_state \<times> store \<Rightarrow> hook_state \<times> store"
where
  "debounceFired toLowerCase minQueryLength hs =
     (case debounceTimer (fst hs) of
        None \<Rightarrow> hs
      | Some (ct, en) \<Rightarrow>
          let h1 = (fst hs)\<lparr>debounceTimer := None, lastQuery := ct\<rparr>;
              found = findBestMatch toLowerCase minQueryLength en (snd hs) ct
          in (case fst found of
                Some m \<Rightarrow>
                  if m \<noteq> []
                  then (h1\<lparr>suffix := slice_from (length ct) m, fullSuggestion := Some m\<rparr>,
                        snd found)
                  else (clearSuggestion h1, snd found)
              | None \<Rightarrow> (clearSuggestion h1, snd found)))"

definition clear :: "hook_state \<Rightarrow> hook_state" where
  "clear h = (clearSuggestion (h\<lparr>debounceTimer := None\<rparr>))\<lparr>lastQuery := []\<rparr>"

text \<open>
  \<open>applySuggestion\<close> closes over the \<open>fullSuggestion\<close> of its render, here
  \<open>captured\<close>; it tests and returns that value, and it schedules the clearing.
  \<open>!fullSuggestion\<close> holds for \<open>null\<close> and for the empty string. The callback of the
  current render is \<open>applySuggestion (fullSuggestion h) h\<close>.
\<close>

definition applySuggestion ::
  "jsstring option \<Rightarrow> hook_state \<Rightarrow> jsstring option \<times> hook_state"
where
  "applySuggestion captured h =
     (if captured = None \<or> captured = Some [] then (None, h)
      else
        let result = captured
        in (result, (clearSuggestion h)\<lparr>lastQuery := []\<rparr>))"

definition hasSuggestion :: "hook_state \<Rightarrow> bool" where
  "hasSuggestion h =
     (suffix h \<noteq> [] \<and> fullSuggestion h \<noteq> None \<and> fullSuggestion h \<noteq> Some [])"

text \<open>A \<open>storage\<close> event carries the changed key and its new value, each possibly
  \<open>null\<close>. \<open>HISTORY_ENABLED_KEY\<close> is a constant of another module, a parameter here.\<close>

record storage_event =
  changedKey :: "jsstring option"
  newValue :: "jsstring option"

definition handleStorageChange :: "jsstring \<Rightarrow> storage_event \<Rightarrow> hook_state \<Rightarrow> hook_state" where
  "handleStorageChange HISTORY_ENABLED_KEY e h =
     (if changedKey e = Some HISTORY_ENABLED_KEY
      then h\<lparr>enabled := (newValue e \<noteq> Some (str ''false''))\<rparr>
      else h)"

text \<open>The poll: \<open>currentEnabled\<close> is what \<open>isHistoryCompletionEnabled()\<close> returned.\<close>

definition checkEnabled :: "bool \<Rightarrow> hook_state \<Rightarrow> hook_state" where
  "checkEnabled currentEnabled h = h\<lparr>enabled := currentEnabled\<rparr>"

text \<open>Everything that can happen to a mounted hook, one event at a time, the caller
  using the callbacks of the current render; the store is shared, so another writer may
  replace its contents between two events.\<close>

datatype operation =
    UpdateQuery jsstring
  | DebounceFired
  | Clear
  | ApplySuggestion
  | StorageChange storage_event
  | CheckEnabled bool
  | StoreWritten store

fun step ::
  "(jsstring \<Rightarrow> jsstring) \<Rightarrow> int \<Rightarrow> jsstring \<Rightarrow> hook_state \<times> store \<Rightarrow> operation
   \<Rightarrow> hook_state \<times> store"
where
  "step lc n k (h, st) (UpdateQuery text) = (updateQuery n text h, st)"
| "step lc n k (h, st) DebounceFired = debounceFired lc n (h, st)"
| "step lc n k (h, st) Clear = (clear h, st)"
| "step lc n k (h, st) ApplySuggestion = (snd (applySuggestion (fullSuggestion h) h), st)"
| "step lc n k (h, st) (StorageChange e) = (handleStorageChange k e h, st)"
| "step lc n k (h, st) (CheckEnabled b) = (checkEnabled b h, st)"
| "step lc n k (h, st) (StoreWritten st') = (h, st')"

definition run ::
  "(jsstring \<Rightarrow> jsstring) \<Rightarrow> int \<Rightarrow> jsstring \<Rightarrow> hook_state \<times> store \<Rightarrow> operation list
   \<Rightarrow> hook_state \<times> store"
where
  "run lc n k hs ops = foldl (step lc n k) hs ops"

text \<open>The suggestion is whole: a suffix with its full string, or neither.\<close>

definition suggestionWhole :: "hook_state \<Rightarrow> bool" where
  "suggestionWhole h =
     ((suffix h \<noteq> [] \<and> fullSuggestion h \<noteq> None)
      \<or> (suffix h = [] \<and> fullSuggestion h = None))"

section \<open>useKeyboardHandler\<close>

text \<open>
  The fields of the key-down event the handler reads (\<open>keyCode\<close> and
  \<open>nativeIsComposing\<close> are those of \<open>e.nativeEvent\<close>), and the options of the hook.
  A callback that answers whether it consumed the event is a predicate on the event.
  \<open>inlineCompletion\<close> is \<open>Some b\<close> when the handler is given and its
  \<open>applySuggestion()\<close> answers \<open>b\<close>; \<open>onModeSelect\<close> tells whether the callback is
  given. \<open>permissionMode\<close> and \<open>currentProvider\<close> are strings at run time.
\<close>

record key_event =
  key :: jsstring
  keyCode :: int
  shiftKey :: bool
  ctrlKey :: bool
  metaKey :: bool
  nativeIsComposing :: bool

record completion =
  isOpen :: bool
  handleKeyDown :: "key_event \<Rightarrow> bool"

datatype send_shortcut = enter | cmdEnter

record keyboard_options =
  isComposing :: bool
  lastCompositionEndTime :: int
  sendShortcut :: send_shortcut
  sdkStatusLoading :: bool
  sdkInstalled :: bool
  fileCompletion :: completion
  commandCompletion :: completion
  agentCompletion :: completion
  handleMacCursorMovement :: "key_event \<Rightarrow> bool"
  handleHistoryKeyDown :: "key_event \<Rightarrow> bool"
  inlineCompletion :: "bool option"
  completionSelectedRef :: bool
  submittedOnEnterRef :: bool
  permissionMode :: "jsstring option"
  currentProvider :: "jsstring option"
  onModeSelect :: bool

text \<open>
  What one call of \<open>onKeyDown\<close> did: the calls on the event, the two refs after the
  call, whether \<open>handleSubmit\<close> ran, and the argument \<open>onModeSelect\<close> was called
  with (\<open>Some None\<close> would be a call with \<open>undefined\<close>).
\<close>

record outcome =
  preventDefault :: bool
  stopPropagation :: bool
  completionSelected :: bool
  submittedOnEnter :: bool
  handleSubmitCalled :: bool
  modeSelected :: "jsstring option option"

definition untouched :: "keyboard_options \<Rightarrow> outcome" where
  "untouched opts =
     \<lparr>preventDefault = False, stopPropagation = False,
      completionSelected = completionSelectedRef opts,
      submittedOnEnter = submittedOnEnterRef opts,
      handleSubmitCalled = False, modeSelected = None\<rparr>"

text \<open>\<open>xs.indexOf(x)\<close> is \<open>-1\<close> on a miss; \<open>xs[i]\<close> is \<open>undefined\<close> out of range;
  \<open>%\<close> is the remainder of the truncating division.\<close>

fun indexOf :: "'a list \<Rightarrow> 'a \<Rightarrow> int" where
  "indexOf [] x = -1"
| "indexOf (y # ys) x =
     (if y = x then 0 else (let i = indexOf ys x in if i < 0 then -1 else i + 1))"

definition at_index :: "'a list \<Rightarrow> int \<Rightarrow> 'a option" where
  "at_index xs i = (if 0 \<le> i \<and> i < int (length xs) then Some (xs ! nat i) else None)"

definition modeOrder :: "jsstring list" where
  "modeOrder = [str ''default'', str ''plan'', str ''acceptEdits'', str ''bypassPermissions'']"

definition nextMode :: "jsstring \<Rightarrow> jsstring option" where
  "nextMode mode =
     (let currentIndex = indexOf modeOrder mode
      in at_index modeOrder ((currentIndex + 1) smod int (length modeOrder)))"

definition isCursorMovementKey :: "key_event \<Rightarrow> bool" where
  "isCursorMovementKey e =
     (key e = str ''Home'' \<or> key e = str ''End''
      \<or> ((key e = str ''a'' \<or> key e = str ''A'') \<and> ctrlKey e \<and> \<not> metaKey e)
      \<or> ((key e = str ''e'' \<or> key e = str ''E'') \<and> ctrlKey e \<and> \<not> metaKey e))"

definition isIMEComposing :: "keyboard_options \<Rightarrow> key_event \<Rightarrow> bool" where
  "isIMEComposing opts e = (isComposing opts \<or> nativeIsComposing e)"

definition isEnterKey :: "key_event \<Rightarrow> bool" where
  "isEnterKey e = (key e = str ''Enter'' \<or> keyCode e = 13)"

text \<open>The stages of \<open>onKeyDown\<close> from the last to the first; each one consumes the
  event or hands it to the stage after it. \<open>now\<close> is \<open>Date.now()\<close>.\<close>

definition isRecentlyComposing :: "keyboard_options \<Rightarrow> int \<Rightarrow> bool" where
  "isRecentlyComposing opts now = (now - lastCompositionEndTime opts < 100)"

definition isSendKey :: "keyboard_options \<Rightarrow> int \<Rightarrow> key_event \<Rightarrow> bool" where
  "isSendKey opts now e =
     (if sendShortcut opts = cmdEnter
      then isEnterKey e \<and> (metaKey e \<or> ctrlKey e) \<and> \<not> isIMEComposing opts e
      else isEnterKey e \<and> \<not> shiftKey e \<and> \<not> isIMEComposing opts e
           \<and> \<not> isRecentlyComposing opts now)"

definition sendStage :: "keyboard_options \<Rightarrow> int \<Rightarrow> key_event \<Rightarrow> outcome" where
  "sendStage opts now e =
     (if \<not> isSendKey opts now e then untouched opts
      else if sdkStatusLoading opts \<or> \<not> sdkInstalled opts
      then (untouched opts)\<lparr>preventDefault := True\<rparr>
      else (untouched opts)
             \<lparr>preventDefault := True, submittedOnEnter := True, handleSubmitCalled := True\<rparr>)"

definition historyStage :: "keyboard_options \<Rightarrow> int \<Rightarrow> key_event \<Rightarrow> outcome" where
  "historyStage opts now e =
     (if handleHistoryKeyDown opts e then untouched opts else sendStage opts now e)"

definition inlineStage :: "keyboard_options \<Rightarrow> int \<Rightarrow> key_event \<Rightarrow> outcome" where
  "inlineStage opts now e =
     (if key e = str ''Tab'' \<and> inlineCompletion opts = Some True
      then (untouched opts)\<lparr>preventDefault := True, stopPropagation := True\<rparr>
      else historyStage opts now e)"

text \<open>A permission mode is given when it is neither \<open>undefined\<close> nor the empty
  string (the truthiness test of the source).\<close>

definition givenMode :: "keyboard_options \<Rightarrow> jsstring option" where
  "givenMode opts =
     (case permissionMode opts of
        None \<Rightarrow> None
      | Some mode \<Rightarrow> if mode = [] then None else Some mode)"

definition modeStage :: "keyboard_options \<Rightarrow> int \<Rightarrow> key_event \<Rightarrow> outcome" where
  "modeStage opts now e =
     (if key e = str ''Tab'' \<and> shiftKey e \<and> \<not> isIMEComposing opts e
      then (case (if currentProvider opts = Some (str ''claude'') \<and> onModeSelect opts
                  then givenMode opts else None) of
              Some mode \<Rightarrow>
                (untouched opts)
                  \<lparr>preventDefault := True, stopPropagation := True,
                   modeSelected := Some (nextMode mode)\<rparr>
            | None \<Rightarrow> inlineStage opts now e)
      else inlineStage opts now e)"

definition consumedByCompletion :: "keyboard_options \<Rightarrow> key_event \<Rightarrow> outcome" where
  "consumedByCompletion opts e =
     (untouched opts)
       \<lparr>preventDefault := True, stopPropagation := True,
        completionSelected := (if key e = str ''Enter'' then True
                               else completionSelectedRef opts)\<rparr>"

definition handledBy :: "completion \<Rightarrow> key_event \<Rightarrow> bool" where
  "handledBy c e = (isOpen c \<and> handleKeyDown c e)"

definition onKeyDown :: "keyboard_options \<Rightarrow> int \<Rightarrow> key_event \<Rightarrow> outcome" where
  "onKeyDown opts now e =
     (if handleMacCursorMovement opts e then untouched opts
      else if isCursorMovementKey e then untouched opts
      else if handledBy (fileCompletion opts) e then consumedByCompletion opts e
      else if handledBy (commandCompletion opts) e then consumedByCompletion opts e
      else if handledBy (agentCompletion opts) e then consumedByCompletion opts e
      else modeStage opts now e)"

section \<open>The API key preview of the configuration display\<close>

text \<open>The bullet is U+2022; the placeholder of an unset key is the three code units of
  the source's literal.\<close>

definition bullet :: jsstring where
  "bullet = [0x2022]"

definition notConfigured :: jsstring where
  "notConfigured = [0x672A, 0x914D, 0x7F6E]"

definition getApiKeyPreview :: "bool \<Rightarrow> jsstring \<Rightarrow> jsstring" where
  "getApiKeyPreview showApiKey apiKey =
     (if apiKey = [] then notConfigured
      else if showApiKey then apiKey
      else if length apiKey \<le> 10 then repeat bullet (length apiKey)
      else slice_to 8 apiKey @ repeat bullet 8 @ slice_last 4 apiKey)"

section \<open>Concrete stores and events\<close>

definition helloStore :: store where
  "helloStore =
     \<lparr>history = [str ''hello world'', str ''help me please''],
      counts = [(str ''hello world'', 5), (str ''help me please'', 2)],
      quotaExceeded = False\<rparr>"


text \<open>A count map of 101 entries, one more than the cap: a hundred two-unit keys (the
  letter k and one of the ideographs from U+4E00 on) of count 2 and \<open>hello world\<close>
  of count 1; and a store that holds it and refuses every write.\<close>

definition ideographKey :: "nat \<Rightarrow> jsstring" where
  "ideographKey i = str ''k'' @ [of_nat (0x4E00 + i)]"

definition fullCounts :: count_record where
  "fullCounts = map (\<lambda>i. (ideographKey i, 2)) [0..<100] @ [(str ''hello world'', 1)]"

definition fullStore :: store where
  "fullStore =
     \<lparr>history = [str ''hello world'', str ''help''], counts = fullCounts,
      quotaExceeded = True\<rparr>"


text \<open>A key for the flag, the notification that switches the flag off, and two short
  sessions: the user types \<open>hel\<close> and the timer fires; the user types \<open>hel\<close>, the
  flag is switched off, and then the timer fires.\<close>

definition flagKey :: jsstring where
  "flagKey = str ''history-completion-enabled''"

definition disableEvent :: storage_event where
  "disableEvent = \<lparr>changedKey = Some flagKey, newValue = Some (str ''false'')\<rparr>"

definition typedHel :: "hook_state \<times> store" where
  "typedHel =
     run asciiLower 2 flagKey (initial True, helloStore)
       [UpdateQuery (str '' hel''), DebounceFired]"

text \<open>Key-down events and options: nothing open, nothing composing, the SDK ready,
  provider \<open>claude\<close> in mode \<open>plan\<close>, sending on the modifier chord; and variations.\<close>

definition closedCompletion :: completion where
  "closedCompletion = \<lparr>isOpen = False, handleKeyDown = (\<lambda>e. False)\<rparr>"

definition openCompletion :: completion where
  "openCompletion = \<lparr>isOpen = True, handleKeyDown = (\<lambda>e. True)\<rparr>"

definition idleOptions :: keyboard_options where
  "idleOptions =
     \<lparr>isComposing = False, lastCompositionEndTime = 1000, sendShortcut = cmdEnter,
      sdkStatusLoading = False, sdkInstalled = True,
      fileCompletion = closedCompletion, commandCompletion = closedCompletion,
      agentCompletion = closedCompletion,
      handleMacCursorMovement = (\<lambda>e. False), handleHistoryKeyDown = (\<lambda>e. False),
      inlineCompletion = None, completionSelectedRef = False, submittedOnEnterRef = False,
      permissionMode = Some (str ''plan''), currentProvider = Some (str ''claude''),
      onModeSelect = True\<rparr>"

definition enterEvent :: key_event where
  "enterEvent =
     \<lparr>key = str ''Enter'', keyCode = 13, shiftKey = False, ctrlKey = False,
      metaKey = False, nativeIsComposing = False\<rparr>"

definition cmdEnterEvent :: key_event where
  "cmdEnterEvent = enterEvent\<lparr>metaKey := True\<rparr>"

definition shiftTabEvent :: key_event where
  "shiftTabEvent =
     \<lparr>key = str ''Tab'', keyCode = 9, shiftKey = True, ctrlKey = False,
      metaKey = False, nativeIsComposing = False\<rparr>"

text \<open>Two API keys that differ only between their first eight and last four code
  units.\<close>

definition keyA :: jsstring where
  "keyA = str ''sk-ant-0123456789abcdef''"

definition keyB :: jsstring where
  "keyB = str ''sk-ant-0XXXXXXXXXXXcdef''"

definition typedThenDisabled :: "hook_state \<times> store" where
  "typedThenDisabled =
     run asciiLower 2 flagKey (initial True, helloStore)
       [UpdateQuery (str '' hel''), StorageChange disableEvent, DebounceFired]"

section \<open>Properties of the sort\<close>

lemma set_insert_by: "set (insert_by cmp x ys) = insert x (set ys)"
  by (induction ys) auto

lemma set_array_sort: "set (array_sort cmp xs) = set xs"
  by (induction xs) (simp_all add: array_sort_def set_insert_by)

lemma length_insert_by: "length (insert_by cmp x ys) = Suc (length ys)"
  by (induction ys) auto

lemma length_array_sort: "length (array_sort cmp xs) = length xs"
  by (induction xs) (simp_all add: array_sort_def length_insert_by)

text \<open>For a comparator that is total and transitive, insertion keeps a list ordered.\<close>

lemma sorted_insert_by:
  assumes total: "\<And>a b. cmp a b \<le> 0 \<or> cmp b a \<le> 0"
    and trans: "\<And>a b c. cmp a b \<le> 0 \<Longrightarrow> cmp b c \<le> 0 \<Longrightarrow> cmp a c \<le> 0"
    and sorted: "sorted_wrt (\<lambda>a b. cmp a b \<le> 0) ys"
  shows "sorted_wrt (\<lambda>a b. cmp a b \<le> 0) (insert_by cmp x ys)"
  using sorted
proof (induction ys)
  case Nil
  then show ?case by simp
next
  case (Cons y ys)
  show ?case
  proof (cases "cmp x y \<le> 0")
    case True
    have "cmp x z \<le> 0" if "z \<in> set ys" for z
      using that Cons.prems True trans [of x y z] by auto
    with True Cons.prems show ?thesis by auto
  next
    case False
    then have "cmp y x \<le> 0" using total [of x y] by simp
    with False Cons show ?thesis by (auto simp: set_insert_by)
  qed
qed

lemma sorted_array_sort:
  assumes total: "\<And>a b. cmp a b \<le> 0 \<or> cmp b a \<le> 0"
    and trans: "\<And>a b c. cmp a b \<le> 0 \<Longrightarrow> cmp b c \<le> 0 \<Longrightarrow> cmp a c \<le> 0"
  shows "sorted_wrt (\<lambda>a b. cmp a b \<le> 0) (array_sort cmp xs)"
proof (induction xs)
  case Nil
  then show ?case by (simp add: array_sort_def)
next
  case (Cons x xs)
  have "array_sort cmp (x # xs) = insert_by cmp x (array_sort cmp xs)"
    by (simp add: array_sort_def)
  with Cons sorted_insert_by [of cmp, OF total trans] show ?case by simp
qed

lemma array_sort_first:
  assumes total: "\<And>a b. cmp a b \<le> 0 \<or> cmp b a \<le> 0"
    and trans: "\<And>a b c. cmp a b \<le> 0 \<Longrightarrow> cmp b c \<le> 0 \<Longrightarrow> cmp a c \<le> 0"
    and first: "array_sort cmp xs = m # rest"
    and mem: "x \<in> set xs"
  shows "cmp m x \<le> 0"
proof -
  have "sorted_wrt (\<lambda>a b. cmp a b \<le> 0) (m # rest)"
    using sorted_array_sort [of cmp xs, OF total trans] first by simp
  then have later: "\<forall>z \<in> set rest. cmp m z \<le> 0" by simp
  have "x \<in> set (m # rest)" using mem first set_array_sort [of cmp xs] by simp
  then show ?thesis using later total [of m m] by auto
qed




lemma insert_by_front:
  "sorted_wrt (\<lambda>a b. cmp a b \<le> 0) (x # ys) \<Longrightarrow> insert_by cmp x ys = x # ys"
  by (cases ys) auto

lemma array_sort_sorted:
  "sorted_wrt (\<lambda>a b. cmp a b \<le> 0) xs \<Longrightarrow> array_sort cmp xs = xs"
proof (induction xs)
  case Nil
  then show ?case by (simp add: array_sort_def)
next
  case (Cons x xs)
  then have "array_sort cmp xs = xs" by simp
  then have "array_sort cmp (x # xs) = insert_by cmp x xs" by (simp add: array_sort_def)
  with Cons.prems show ?case by (simp only: insert_by_front)
qed

lemma distinct_map_insert_by:
  "distinct (map f (insert_by cmp x ys)) = (f x \<notin> f ` set ys \<and> distinct (map f ys))"
  by (induction ys) (auto simp: set_insert_by)

lemma distinct_map_array_sort: "distinct (map f (array_sort cmp xs)) = distinct (map f xs)"
proof (induction xs)
  case Nil
  then show ?case by (simp add: array_sort_def)
next
  case (Cons x xs)
  have "array_sort cmp (x # xs) = insert_by cmp x (array_sort cmp xs)"
    by (simp add: array_sort_def)
  with Cons show ?case by (simp add: distinct_map_insert_by set_array_sort)
qed

section \<open>Properties of the pruning\<close>

lemma update_fresh: "k \<notin> fst ` set al \<Longrightarrow> AList.update k v al = al @ [(k, v)]"
  by (induction al) auto

lemma foldl_update_distinct:
  "distinct (map fst (acc @ es)) \<Longrightarrow>
   foldl (\<lambda>acc (k, v). AList.update k v acc) acc es = acc @ es"
proof (induction es arbitrary: acc)
  case Nil
  then show ?case by simp
next
  case (Cons e es)
  obtain k v where e: "e = (k, v)" by (cases e)
  from Cons.prems have fresh: "k \<notin> fst ` set acc" by (auto simp: e)
  from Cons.prems have "distinct (map fst ((acc @ [(k, v)]) @ es))" by (simp add: e)
  from Cons.IH [OF this] show ?case by (simp add: e update_fresh [OF fresh])
qed

lemma fromEntries_distinct: "distinct (map fst es) \<Longrightarrow> fromEntries es = es"
  using foldl_update_distinct [of "[]" es] by (simp add: fromEntries_def)

lemma cleanupCounts_small: "length cs \<le> 100 \<Longrightarrow> cleanupCounts cs = cs"
  by (simp add: cleanupCounts_def MAX_COUNT_RECORDS_def)

lemma cleanupCounts_large:
  assumes "distinct (map fst cs)" and "100 < length cs"
  shows "cleanupCounts cs = take 100 (array_sort (\<lambda>a b. snd b - snd a) cs)"
proof -
  let ?sorted = "array_sort (\<lambda>a b. snd b - snd a) cs"
  have "distinct (map fst ?sorted)" using assms(1) by (simp only: distinct_map_array_sort)
  then have "distinct (take 100 (map fst ?sorted))" by (rule distinct_take)
  then have "distinct (map fst (take 100 ?sorted))" by (simp only: take_map)
  then have "fromEntries (take 100 ?sorted) = take 100 ?sorted" by (rule fromEntries_distinct)
  with assms(2) show ?thesis by (simp add: cleanupCounts_def MAX_COUNT_RECORDS_def Let_def)
qed

lemma descending_total: "snd b - snd a \<le> (0::int) \<or> snd a - snd b \<le> 0"
  by linarith

lemma descending_trans:
  "snd b - snd a \<le> (0::int) \<Longrightarrow> snd c - snd b \<le> 0 \<Longrightarrow> snd c - snd a \<le> 0"
  by linarith

lemma length_ideographKey: "length (ideographKey i) = 2"
  by (simp add: ideographKey_def str_def)

lemma inj_ideographKey: "inj_on ideographKey {0..<100}"
  by (auto simp: inj_on_def ideographKey_def word_of_nat_eq_iff take_bit_nat_eq_self)

lemma fullCounts_length: "length fullCounts = 101"
  by (simp add: fullCounts_def)


lemma hello_world_no_ideographKey: "str ''hello world'' \<notin> ideographKey ` A"
proof
  assume "str ''hello world'' \<in> ideographKey ` A"
  then obtain i where "str ''hello world'' = ideographKey i" by blast
  then have "length (str ''hello world'') = 2" by (simp only: length_ideographKey)
  then show False by (simp add: str_def)
qed

lemma fullCounts_distinct: "distinct (map fst fullCounts)"
proof -
  have keys: "map fst fullCounts = map ideographKey [0..<100] @ [str ''hello world'']"
    by (simp add: fullCounts_def comp_def)
  have "distinct (map ideographKey [0..<100])"
    using inj_ideographKey by (simp add: distinct_map)
  with hello_world_no_ideographKey [of "set [0..<100]"] show ?thesis
    unfolding keys by (simp only: distinct_append distinct_singleton set_map) simp
qed

lemma fullCounts_sorted: "sorted_wrt (\<lambda>a b. snd b - snd a \<le> (0::int)) fullCounts"
  by (simp add: fullCounts_def sorted_wrt_append sorted_wrt_map)

lemma cleanupCounts_fullCounts:
  "cleanupCounts fullCounts = map (\<lambda>i. (ideographKey i, 2)) [0..<100]"
proof -
  have "array_sort (\<lambda>a b. snd b - snd a) fullCounts = fullCounts"
    using fullCounts_sorted by (rule array_sort_sorted)
  moreover have "take 100 fullCounts = map (\<lambda>i. (ideographKey i, 2)) [0..<100]"
    by (simp add: fullCounts_def)
  ultimately show ?thesis
    using cleanupCounts_large [OF fullCounts_distinct] by (simp add: fullCounts_length)
qed




text \<open>
  C5. A count map of more than 100 entries is pruned to exactly 100 of its entries, under
  100 different keys, and every kept entry's count is at least every dropped entry's
  count; a map of 100 entries or fewer comes back as it is.
\<close>

theorem cleanupCounts_top_100:
  assumes "distinct (map fst cs)"
  shows "(length cs \<le> 100 \<longrightarrow> cleanupCounts cs = cs)
       \<and> (100 < length cs \<longrightarrow>
            length (cleanupCounts cs) = 100
          \<and> distinct (map fst (cleanupCounts cs))
          \<and> set (cleanupCounts cs) \<subseteq> set cs
          \<and> (\<forall>kept \<in> set (cleanupCounts cs). \<forall>dropped \<in> set cs - set (cleanupCounts cs).
               snd dropped \<le> snd kept))"
proof (intro conjI impI)
  assume "length cs \<le> 100"
  then show "cleanupCounts cs = cs" by (rule cleanupCounts_small)
next
  let ?sorted = "array_sort (\<lambda>a b. snd b - snd a) cs"
  assume large: "100 < length cs"
  have eq: "cleanupCounts cs = take 100 ?sorted"
    using assms large by (rule cleanupCounts_large)
  show "length (cleanupCounts cs) = 100"
    using large by (simp add: eq length_array_sort)
  have "distinct (map fst ?sorted)" using assms by (simp only: distinct_map_array_sort)
  then have "distinct (take 100 (map fst ?sorted))" by (rule distinct_take)
  then show "distinct (map fst (cleanupCounts cs))" by (simp only: eq take_map)
  have "set (take 100 ?sorted) \<subseteq> set ?sorted" by (rule set_take_subset)
  then show "set (cleanupCounts cs) \<subseteq> set cs" by (simp only: eq set_array_sort)
  have "sorted_wrt (\<lambda>a b. snd b - snd a \<le> 0) (take 100 ?sorted @ drop 100 ?sorted)"
    using sorted_array_sort [of "\<lambda>a b. snd b - snd a" cs, OF descending_total descending_trans]
    by simp
  then have order: "\<forall>a \<in> set (take 100 ?sorted). \<forall>b \<in> set (drop 100 ?sorted). snd b \<le> snd a"
    unfolding sorted_wrt_append by simp
  have "set ?sorted = set (take 100 ?sorted) \<union> set (drop 100 ?sorted)"
    by (simp only: set_append [symmetric] append_take_drop_id)
  then have "set cs = set (take 100 ?sorted) \<union> set (drop 100 ?sorted)"
    by (simp only: set_array_sort)
  then have "set cs - set (take 100 ?sorted) \<subseteq> set (drop 100 ?sorted)" by blast
  with order show "\<forall>kept \<in> set (cleanupCounts cs).
      \<forall>dropped \<in> set cs - set (cleanupCounts cs). snd dropped \<le> snd kept"
    unfolding eq by blast
qed

theorem cleanupCounts_top_100_witness:
  "distinct (map fst fullCounts) \<and> 100 < length fullCounts
   \<and> length (cleanupCounts fullCounts) = 100
   \<and> (str ''hello world'', 1) \<in> set fullCounts - set (cleanupCounts fullCounts)"
proof -
  have "(str ''hello world'', 1) \<notin> set (cleanupCounts fullCounts)"
    unfolding cleanupCounts_fullCounts
    using hello_world_no_ideographKey [of "set [0..<100]"] by (auto simp del: set_upt)
  moreover have "(str ''hello world'', 1) \<in> set fullCounts" by (simp add: fullCounts_def)
  ultimately show ?thesis
    using cleanupCounts_top_100 [OF fullCounts_distinct] fullCounts_distinct
    by (simp add: fullCounts_length)
qed

section \<open>Properties of the match search\<close>





lemma findBestMatch_first:
  "fst (findBestMatch lc n en st query) = Some r \<longleftrightarrow>
     en \<and> n \<le> int (length query)
     \<and> (\<exists>rest. array_sort (\<lambda>a b. sortCompare (compareMatches (cleanupCounts (counts st)) a b))
                  (filter (isMatch lc query) (history st)) = r # rest)"
proof -
  have "array_sort cmp [] = []" for cmp :: "jsstring \<Rightarrow> jsstring \<Rightarrow> int"
    by (simp add: array_sort_def)
  then show ?thesis
    by (auto simp: findBestMatch_def Let_def split: list.splits)
qed

lemma findBestMatch_Some_isMatch:
  assumes "fst (findBestMatch lc n en st query) = Some r"
  shows "r \<in> set (history st) \<and> isMatch lc query r"
proof -
  let ?ms = "filter (isMatch lc query) (history st)"
  let ?sorted = "array_sort (\<lambda>a b. sortCompare (compareMatches (cleanupCounts (counts st)) a b)) ?ms"
  from assms obtain rest where "?sorted = r # rest"
    unfolding findBestMatch_first by blast
  then have "r \<in> set ?sorted" by simp
  then have "r \<in> set ?ms" by (simp only: set_array_sort)
  then show ?thesis by simp
qed

lemma helloStore_match:
  "fst (findBestMatch asciiLower 2 True helloStore (str ''hel'')) = Some (str ''hello world'')"
  by (simp add: findBestMatch_def cleanupCounts_def MAX_COUNT_RECORDS_def isMatch_def
      asciiLower_def str_def array_sort_def compareMatches_def countOf_def getProperty_def
      sortCompare_def subtract_def helloStore_def)

text \<open>
  C1. Whatever the history list and the query, a string the match search returns is an
  item of the history whose lowercase form starts with the lowercase query, it is strictly
  longer than the query, and so it is never the query itself.
\<close>

theorem findBestMatch_prefix_longer:
  assumes "fst (findBestMatch lc n en st query) = Some r"
  shows "r \<in> set (history st) \<and> prefix (lc query) (lc r)
         \<and> length query < length r \<and> r \<noteq> query"
  using findBestMatch_Some_isMatch [OF assms] by (auto simp: isMatch_def)

theorem findBestMatch_prefix_longer_witness:
  "fst (findBestMatch asciiLower 2 True helloStore (str ''hel'')) = Some (str ''hello world'')
   \<and> str ''hello world'' \<in> set (history helloStore)
   \<and> prefix (asciiLower (str ''hel'')) (asciiLower (str ''hello world''))
   \<and> length (str ''hel'') < length (str ''hello world'')
   \<and> str ''hello world'' \<noteq> str ''hel''"
  using findBestMatch_prefix_longer [OF helloStore_match] helloStore_match by simp




text \<open>
  C6. When the write of the pruned count map throws, the search still returns, with the
  result it has when the write succeeds, and it leaves the store as it was.
\<close>

theorem findBestMatch_write_error_swallowed:
  assumes "setItem_counts (cleanupCounts (counts st)) st = Inl err"
  shows "fst (findBestMatch lc n en st query)
           = fst (findBestMatch lc n en (st\<lparr>quotaExceeded := False\<rparr>) query)
       \<and> snd (findBestMatch lc n en st query) = st"
proof -
  from assms have "quotaExceeded st"
    by (simp add: setItem_counts_def split: if_splits)
  then show ?thesis
    by (simp add: findBestMatch_def setItem_counts_def Let_def split: list.splits)
qed

theorem findBestMatch_write_error_swallowed_witness:
  "length (cleanupCounts (counts fullStore)) \<noteq> length (counts fullStore)
   \<and> setItem_counts (cleanupCounts (counts fullStore)) fullStore = Inl QuotaExceededError
   \<and> fst (findBestMatch asciiLower 2 True fullStore (str ''hel''))
       = fst (findBestMatch asciiLower 2 True (fullStore\<lparr>quotaExceeded := False\<rparr>) (str ''hel''))
   \<and> snd (findBestMatch asciiLower 2 True fullStore (str ''hel'')) = fullStore"
proof -
  have attempted: "length (cleanupCounts (counts fullStore)) \<noteq> length (counts fullStore)"
    by (simp add: fullStore_def cleanupCounts_fullCounts fullCounts_length)
  have throws: "setItem_counts (cleanupCounts (counts fullStore)) fullStore
      = Inl QuotaExceededError"
    by (simp add: setItem_counts_def fullStore_def)
  show ?thesis
    using findBestMatch_write_error_swallowed [OF throws] attempted throws by simp
qed

section \<open>Properties of the hook's operations\<close>

lemma suggestionWhole_clearSuggestion: "suggestionWhole (clearSuggestion h)"
  by (simp add: suggestionWhole_def clearSuggestion_def)

lemma suggestionWhole_updateQuery:
  "suggestionWhole h \<Longrightarrow> suggestionWhole (updateQuery n text h)"
  by (simp add: updateQuery_def Let_def suggestionWhole_def clearSuggestion_def)

lemma suggestionWhole_clear: "suggestionWhole (clear h)"
  by (simp add: clear_def suggestionWhole_def clearSuggestion_def)

lemma suggestionWhole_applySuggestion:
  "suggestionWhole h \<Longrightarrow> suggestionWhole (snd (applySuggestion captured h))"
  by (simp add: applySuggestion_def Let_def suggestionWhole_def clearSuggestion_def)

lemma suggestionWhole_handleStorageChange:
  "suggestionWhole h \<Longrightarrow> suggestionWhole (handleStorageChange k e h)"
  by (simp add: handleStorageChange_def suggestionWhole_def)

lemma suggestionWhole_checkEnabled:
  "suggestionWhole h \<Longrightarrow> suggestionWhole (checkEnabled b h)"
  by (simp add: checkEnabled_def suggestionWhole_def)

text \<open>The timer callback: a match is longer than the query it was found for, so the
  suffix cut from it is not empty.\<close>

lemma suggestionWhole_debounceFired:
  assumes "suggestionWhole (fst hs)"
  shows "suggestionWhole (fst (debounceFired lc n hs))"
proof (cases "debounceTimer (fst hs)")
  case None
  with assms show ?thesis by (simp add: debounceFired_def)
next
  case (Some pending)
  obtain ct en where pending: "pending = (ct, en)" by (cases pending)
  show ?thesis
  proof (cases "fst (findBestMatch lc n en (snd hs) ct)")
    case None
    with Some pending show ?thesis
      by (simp add: debounceFired_def Let_def suggestionWhole_def clearSuggestion_def)
  next
    case (Some m)
    from findBestMatch_Some_isMatch [OF Some] have "length ct < length m"
      by (simp add: isMatch_def)
    with Some \<open>debounceTimer (fst hs) = Some pending\<close> pending show ?thesis
      by (auto simp: debounceFired_def Let_def suggestionWhole_def clearSuggestion_def
          slice_from_def)
  qed
qed

lemma suggestionWhole_step:
  "suggestionWhole (fst hs) \<Longrightarrow> suggestionWhole (fst (step lc n k hs operation))"
proof (cases hs)
  case (Pair h st)
  assume "suggestionWhole (fst hs)"
  with Pair have whole: "suggestionWhole h" by simp
  show ?thesis
  proof (cases operation)
    case DebounceFired
    with Pair whole suggestionWhole_debounceFired [of "(h, st)" lc n] show ?thesis by simp
  qed (use Pair whole in \<open>simp_all add: suggestionWhole_updateQuery suggestionWhole_clear
        suggestionWhole_applySuggestion suggestionWhole_handleStorageChange
        suggestionWhole_checkEnabled\<close>)
qed

lemma suggestionWhole_foldl:
  "suggestionWhole (fst hs) \<Longrightarrow> suggestionWhole (fst (foldl (step lc n k) hs ops))"
  by (induction ops arbitrary: hs) (simp_all add: suggestionWhole_step)

lemma typedHel_state:
  "fst typedHel =
     \<lparr>suffix = str ''lo world'', fullSuggestion = Some (str ''hello world''),
      enabled = True, debounceTimer = None, lastQuery = str ''hel''\<rparr>"
proof -
  have clean: "cleanText (str '' hel'') = str ''hel''"
    by (simp add: cleanText_def trim_def isZeroWidth_def isWhiteSpace_def str_def)
  have "length (str ''hel'') = 3" by (simp add: str_def)
  moreover have "drop 3 (str ''hello world'') = str ''lo world''" by (simp add: str_def)
  moreover have "str ''hel'' \<noteq> []" and "str ''hello world'' \<noteq> []" by (simp_all add: str_def)
  ultimately show ?thesis
    by (simp add: typedHel_def run_def updateQuery_def debounceFired_def initial_def clean
        helloStore_match Let_def slice_from_def)
qed

text \<open>
  C3. \<open>applySuggestion\<close> consumes the suggestion from one render to the next: when
  the full suggestion its callback closes over is active, the call returns that string and
  empties suffix, full suggestion and last query for the next render; when it is
  \<open>null\<close>, the call returns \<open>null\<close> and changes nothing; and after a call of the
  current render's callback, the callback of the next render returns \<open>null\<close>.
\<close>

theorem applySuggestion_consumes:
  "(captured = Some m \<and> m \<noteq> [] \<longrightarrow>
      fst (applySuggestion captured h) = Some m
    \<and> suffix (snd (applySuggestion captured h)) = []
    \<and> fullSuggestion (snd (applySuggestion captured h)) = None
    \<and> lastQuery (snd (applySuggestion captured h)) = []
    \<and> fst (applySuggestion (fullSuggestion (snd (applySuggestion captured h)))
             (snd (applySuggestion captured h))) = None)
   \<and> (captured = None \<longrightarrow> applySuggestion captured h = (None, h))
   \<and> fst (applySuggestion (fullSuggestion (snd (applySuggestion (fullSuggestion h) h)))
            (snd (applySuggestion (fullSuggestion h) h))) = None"
  by (simp add: applySuggestion_def Let_def clearSuggestion_def)

theorem applySuggestion_consumes_witness:
  "fullSuggestion (fst typedHel) = Some (str ''hello world'') \<and> str ''hello world'' \<noteq> []
   \<and> fst (applySuggestion (fullSuggestion (fst typedHel)) (fst typedHel))
       = Some (str ''hello world'')
   \<and> suffix (snd (applySuggestion (fullSuggestion (fst typedHel)) (fst typedHel))) = []
   \<and> fst (applySuggestion
        (fullSuggestion (snd (applySuggestion (fullSuggestion (fst typedHel)) (fst typedHel))))
        (snd (applySuggestion (fullSuggestion (fst typedHel)) (fst typedHel)))) = None
   \<and> fullSuggestion (initial True) = None
   \<and> applySuggestion (fullSuggestion (initial True)) (initial True) = (None, initial True)"
proof -
  have active: "fullSuggestion (fst typedHel) = Some (str ''hello world'')"
    by (simp add: typedHel_state)
  have nonempty: "str ''hello world'' \<noteq> []" by (simp add: str_def)
  have none: "fullSuggestion (initial True) = None" by (simp add: initial_def)
  have "fst (applySuggestion (Some (str ''hello world'')) (fst typedHel))
        = Some (str ''hello world'')
      \<and> suffix (snd (applySuggestion (Some (str ''hello world'')) (fst typedHel))) = []
      \<and> fst (applySuggestion
           (fullSuggestion (snd (applySuggestion (Some (str ''hello world'')) (fst typedHel))))
           (snd (applySuggestion (Some (str ''hello world'')) (fst typedHel)))) = None"
    using applySuggestion_consumes
      [of "Some (str ''hello world'')" "str ''hello world''" "fst typedHel"] nonempty
    by blast
  moreover have "applySuggestion None (initial True) = (None, initial True)"
    using applySuggestion_consumes [of None "str ''hello world''" "initial True"] by blast
  ultimately show ?thesis using nonempty by (simp add: active none)
qed

text \<open>
  Against C3 as it is stated: two calls in a row of the callback of one render, with no
  update between them, both return the match, since the second call tests the same
  \<open>fullSuggestion\<close> the first one did.
\<close>

theorem applySuggestion_consumes_counterexample:
  "fst (applySuggestion (Some (str ''hello world'')) (fst typedHel))
     = Some (str ''hello world'')
   \<and> fst (applySuggestion (Some (str ''hello world''))
        (snd (applySuggestion (Some (str ''hello world'')) (fst typedHel))))
     = Some (str ''hello world'')
   \<and> fullSuggestion (fst typedHel) = Some (str ''hello world'')"
proof -
  have "str ''hello world'' \<noteq> []" by (simp add: str_def)
  then show ?thesis by (simp add: applySuggestion_def Let_def typedHel_state)
qed

text \<open>
  C4. From the state of a freshly mounted hook, after any sequence of operations
  (query updates, timer callbacks, clears, applied suggestions, changes and polls of the
  flag, writes of other parties to the store) the suggestion is whole: a non-empty suffix
  with a full suggestion, or an empty suffix with none.
\<close>

theorem suggestion_never_partial:
  "suggestionWhole (fst (run lc n k (initial isEnabled, st) ops))"
proof -
  have "suggestionWhole (fst (initial isEnabled, st))"
    by (simp add: initial_def suggestionWhole_def)
  then show ?thesis unfolding run_def by (rule suggestionWhole_foldl)
qed

theorem suggestion_never_partial_witness:
  "suggestionWhole (fst typedHel) \<and> suffix (fst typedHel) = str ''lo world''
   \<and> fullSuggestion (fst typedHel) = Some (str ''hello world'')"
  using suggestion_never_partial
    [of asciiLower 2 flagKey True helloStore "[UpdateQuery (str '' hel''), DebounceFired]"]
  by (simp add: typedHel_state typedHel_def [symmetric])

lemma typedThenDisabled_state:
  "fst typedThenDisabled =
     \<lparr>suffix = str ''lo world'', fullSuggestion = Some (str ''hello world''),
      enabled = False, debounceTimer = None, lastQuery = str ''hel''\<rparr>"
proof -
  have clean: "cleanText (str '' hel'') = str ''hel''"
    by (simp add: cleanText_def trim_def isZeroWidth_def isWhiteSpace_def str_def)
  have "length (str ''hel'') = 3" by (simp add: str_def)
  moreover have "drop 3 (str ''hello world'') = str ''lo world''" by (simp add: str_def)
  moreover have "str ''hel'' \<noteq> []" and "str ''hello world'' \<noteq> []" by (simp_all add: str_def)
  ultimately show ?thesis
    by (simp add: typedThenDisabled_def run_def updateQuery_def debounceFired_def initial_def
        handleStorageChange_def disableEvent_def clean helloStore_match Let_def slice_from_def)
qed

text \<open>
  C7. A change notification for the flag's key leaves the hook disabled exactly when
  the new value is the string \<open>false\<close>. A search made by a render whose enabled state
  is false returns nothing, whatever the store and the query: a pending timer that was
  set while the state was false ends with no suggestion, and so does every query update
  made while the state is false, once its timer fires.
\<close>

theorem disabled_search_returns_nothing:
  "(changedKey e = Some k \<longrightarrow>
      enabled (handleStorageChange k e h) = (newValue e \<noteq> Some (str ''false'')))
   \<and> fst (findBestMatch lc n False st query) = None
   \<and> (debounceTimer h = Some (query, False) \<longrightarrow>
        fullSuggestion (fst (debounceFired lc n (h, st))) = None
      \<and> suffix (fst (debounceFired lc n (h, st))) = [])
   \<and> (\<not> enabled h \<longrightarrow>
        fullSuggestion (fst (debounceFired lc n (updateQuery n text h, st))) = None
      \<and> suffix (fst (debounceFired lc n (updateQuery n text h, st))) = [])"
  by (simp add: handleStorageChange_def findBestMatch_def updateQuery_def debounceFired_def
      Let_def clearSuggestion_def)

theorem disabled_search_returns_nothing_witness:
  "changedKey disableEvent = Some flagKey \<and> newValue disableEvent = Some (str ''false'')
   \<and> enabled (fst typedHel)
   \<and> enabled (handleStorageChange flagKey disableEvent (fst typedHel)) = False
   \<and> fst (findBestMatch asciiLower 2 True helloStore (str ''hel'')) = Some (str ''hello world'')
   \<and> fst (findBestMatch asciiLower 2 False helloStore (str ''hel'')) = None
   \<and> debounceTimer
        (updateQuery 2 (str ''hel'') (handleStorageChange flagKey disableEvent (fst typedHel)))
       = Some (str ''hel'', False)
   \<and> fullSuggestion (fst (debounceFired asciiLower 2
        (updateQuery 2 (str ''hel'') (handleStorageChange flagKey disableEvent (fst typedHel)),
         helloStore))) = None"
proof -
  let ?off = "handleStorageChange flagKey disableEvent (fst typedHel)"
  have clean: "cleanText (str ''hel'') = str ''hel''"
    by (simp add: cleanText_def trim_def isZeroWidth_def isWhiteSpace_def str_def)
  have "length (str ''hel'') = 3" and "str ''hel'' \<noteq> []" by (simp_all add: str_def)
  then have pending: "debounceTimer (updateQuery 2 (str ''hel'') ?off) = Some (str ''hel'', False)"
    by (simp add: updateQuery_def clean Let_def handleStorageChange_def disableEvent_def)
  have key: "changedKey disableEvent = Some flagKey"
    and new: "newValue disableEvent = Some (str ''false'')"
    by (simp_all add: disableEvent_def)
  have on: "enabled (fst typedHel)" by (simp add: typedHel_state)
  from disabled_search_returns_nothing
    [where e = disableEvent and k = flagKey and h = "fst typedHel" and lc = asciiLower
      and n = 2 and st = helloStore and query = "str ''hel''"]
    key new
  have off: "enabled ?off = False"
    and silent: "fst (findBestMatch asciiLower 2 False helloStore (str ''hel'')) = None"
    by simp_all
  from disabled_search_returns_nothing
    [where h = "updateQuery 2 (str ''hel'') ?off" and lc = asciiLower and n = 2
      and st = helloStore and query = "str ''hel''"]
    pending
  have "fullSuggestion (fst (debounceFired asciiLower 2
        (updateQuery 2 (str ''hel'') ?off, helloStore))) = None"
    by blast
  with off silent key new on pending helloStore_match show ?thesis by simp
qed

text \<open>
  Against C7 as it is stated: the user types \<open>hel\<close>, the flag is switched off before
  the timer fires, and the timer's search, made by the render that was enabled, finds
  \<open>hello world\<close>: a suggestion appears while the enabled state is false.
\<close>

theorem disabled_search_returns_nothing_counterexample:
  "enabled (fst typedThenDisabled) = False
   \<and> fullSuggestion (fst typedThenDisabled) = Some (str ''hello world'')
   \<and> suffix (fst typedThenDisabled) = str ''lo world''"
  by (simp add: typedThenDisabled_state)

section \<open>Properties of the keyboard handler\<close>

lemma tab_not_cursor_movement: "key e = str ''Tab'' \<Longrightarrow> \<not> isCursorMovementKey e"
  by (simp add: isCursorMovementKey_def str_def)

lemma untouched_no_submit: "\<not> handleSubmitCalled (untouched opts)"
  by (simp add: untouched_def)

lemma sendStage_submit: "handleSubmitCalled (sendStage opts now e) \<Longrightarrow> isSendKey opts now e"
  by (cases "isSendKey opts now e") (simp_all add: sendStage_def untouched_def)

lemma historyStage_submit:
  "handleSubmitCalled (historyStage opts now e) \<Longrightarrow> isSendKey opts now e"
  by (cases "handleHistoryKeyDown opts e")
    (simp_all add: historyStage_def untouched_no_submit sendStage_submit)

lemma inlineStage_submit:
  "handleSubmitCalled (inlineStage opts now e) \<Longrightarrow> isSendKey opts now e"
  by (cases "key e = str ''Tab'' \<and> inlineCompletion opts = Some True")
    (simp_all add: inlineStage_def untouched_no_submit historyStage_submit)

lemma modeStage_submit:
  assumes "handleSubmitCalled (modeStage opts now e)"
  shows "isSendKey opts now e"
proof -
  have "handleSubmitCalled (modeStage opts now e)
      \<longrightarrow> handleSubmitCalled (inlineStage opts now e)"
    by (simp add: modeStage_def untouched_no_submit split: option.splits)
  with assms show ?thesis by (simp add: inlineStage_submit)
qed

lemma handleSubmit_only_on_send_key:
  assumes "handleSubmitCalled (onKeyDown opts now e)"
  shows "isSendKey opts now e"
proof -
  have "\<not> handleSubmitCalled (consumedByCompletion opts e)"
    by (simp add: consumedByCompletion_def untouched_def)
  with assms have "handleSubmitCalled (modeStage opts now e)"
    by (simp add: onKeyDown_def untouched_no_submit split: if_splits)
  then show ?thesis by (rule modeStage_submit)
qed

lemma modes_differ:
  "str ''default'' \<noteq> str ''plan''" "str ''default'' \<noteq> str ''acceptEdits''"
  "str ''default'' \<noteq> str ''bypassPermissions''" "str ''plan'' \<noteq> str ''acceptEdits''"
  "str ''plan'' \<noteq> str ''bypassPermissions''"
  "str ''acceptEdits'' \<noteq> str ''bypassPermissions''"
  by (simp_all add: str_def)

lemma indexOf_modeOrder:
  "indexOf modeOrder mode =
     (if mode = str ''default'' then 0
      else if mode = str ''plan'' then 1
      else if mode = str ''acceptEdits'' then 2
      else if mode = str ''bypassPermissions'' then 3
      else -1)"
  by (auto simp: modeOrder_def)

lemma remainders_of_4:
  "(0::int) smod 4 = 0" "(1::int) smod 4 = 1" "(2::int) smod 4 = 2" "(3::int) smod 4 = 3"
  "(4::int) smod 4 = 0"
  by (simp_all add: smod_int_alt_def)

lemma nextMode_cases:
  "nextMode mode =
     Some (if mode = str ''default'' then str ''plan''
           else if mode = str ''plan'' then str ''acceptEdits''
           else if mode = str ''acceptEdits'' then str ''bypassPermissions''
           else str ''default'')"
proof -
  have elems: "length modeOrder = 4" "modeOrder ! 0 = str ''default''"
      "modeOrder ! Suc 0 = str ''plan''" "modeOrder ! 2 = str ''acceptEdits''"
      "modeOrder ! 3 = str ''bypassPermissions''"
    by (simp_all add: modeOrder_def)
  consider "mode = str ''default''" | "mode = str ''plan''" | "mode = str ''acceptEdits''"
    | "mode = str ''bypassPermissions''"
    | "mode \<noteq> str ''default''" "mode \<noteq> str ''plan''" "mode \<noteq> str ''acceptEdits''"
      "mode \<noteq> str ''bypassPermissions''"
    by blast
  then show ?thesis
  proof cases
    case 1
    then show ?thesis
      by (simp add: nextMode_def indexOf_modeOrder at_index_def elems remainders_of_4)
  next
    case 2
    then show ?thesis
      by (simp add: nextMode_def indexOf_modeOrder at_index_def elems remainders_of_4
          modes_differ modes_differ [symmetric])
  next
    case 3
    then show ?thesis
      by (simp add: nextMode_def indexOf_modeOrder at_index_def elems remainders_of_4
          modes_differ modes_differ [symmetric])
  next
    case 4
    then show ?thesis
      by (simp add: nextMode_def indexOf_modeOrder at_index_def elems remainders_of_4
          modes_differ modes_differ [symmetric])
  next
    case 5
    then show ?thesis
      by (simp add: nextMode_def indexOf_modeOrder at_index_def elems remainders_of_4)
  qed
qed

text \<open>
  C8. Sending is suppressed while a composition is active, in both shortcut modes; in the
  plain Enter mode it is also suppressed when the composition ended less than 100ms
  before the event. Such an event never runs \<open>handleSubmit\<close>.
\<close>

theorem composition_suppresses_send:
  "(isIMEComposing opts e \<longrightarrow> \<not> handleSubmitCalled (onKeyDown opts now e))
   \<and> (sendShortcut opts = enter \<and> now - lastCompositionEndTime opts < 100 \<longrightarrow>
        \<not> handleSubmitCalled (onKeyDown opts now e))"
  using handleSubmit_only_on_send_key [of opts now e]
  by (auto simp: isSendKey_def isRecentlyComposing_def split: if_splits)

theorem composition_suppresses_send_witness:
  "isIMEComposing (idleOptions\<lparr>isComposing := True\<rparr>) cmdEnterEvent
   \<and> \<not> handleSubmitCalled (onKeyDown (idleOptions\<lparr>isComposing := True\<rparr>) 5000 cmdEnterEvent)
   \<and> sendShortcut (idleOptions\<lparr>sendShortcut := enter\<rparr>) = enter
   \<and> 1050 - lastCompositionEndTime (idleOptions\<lparr>sendShortcut := enter\<rparr>) < 100
   \<and> \<not> handleSubmitCalled (onKeyDown (idleOptions\<lparr>sendShortcut := enter\<rparr>) 1050 enterEvent)"
  using composition_suppresses_send
      [where opts = "idleOptions\<lparr>isComposing := True\<rparr>" and e = cmdEnterEvent and now = 5000]
    composition_suppresses_send
      [where opts = "idleOptions\<lparr>sendShortcut := enter\<rparr>" and e = enterEvent and now = 1050]
  by (simp add: isIMEComposing_def idleOptions_def)

text \<open>
  Against C8 as it is stated: in the modifier mode the test of a recent composition is
  not made. Forty milliseconds after a composition ended, Cmd+Enter reaches the send
  stage and runs \<open>handleSubmit\<close>.
\<close>

theorem composition_suppresses_send_counterexample:
  "sendShortcut idleOptions = cmdEnter
   \<and> \<not> isIMEComposing idleOptions cmdEnterEvent
   \<and> 1040 - lastCompositionEndTime idleOptions < 100
   \<and> onKeyDown idleOptions 1040 cmdEnterEvent = sendStage idleOptions 1040 cmdEnterEvent
   \<and> handleSubmitCalled (onKeyDown idleOptions 1040 cmdEnterEvent)"
  by (simp add: onKeyDown_def modeStage_def inlineStage_def historyStage_def sendStage_def
      isSendKey_def isEnterKey_def isIMEComposing_def isCursorMovementKey_def handledBy_def
      untouched_def idleOptions_def cmdEnterEvent_def enterEvent_def closedCompletion_def
      str_def)

text \<open>
  C9. A Shift+Tab key-down that no earlier stage consumes (the cursor-movement handler
  and the three completion popups let it pass), with no composition active, provider
  \<open>claude\<close>, the callback given and a non-empty permission mode: the callback receives
  the mode after the current one in the cycle default, plan, acceptEdits,
  bypassPermissions, and \<open>default\<close> when the current mode is none of the four.
\<close>

theorem shift_tab_selects_next_mode:
  assumes "key e = str ''Tab''" and "shiftKey e" and "\<not> isIMEComposing opts e"
    and "currentProvider opts = Some (str ''claude'')" and "onModeSelect opts"
    and "permissionMode opts = Some mode" and "mode \<noteq> []"
    and "\<not> handleMacCursorMovement opts e"
    and "\<not> handledBy (fileCompletion opts) e"
    and "\<not> handledBy (commandCompletion opts) e"
    and "\<not> handledBy (agentCompletion opts) e"
  shows "modeSelected (onKeyDown opts now e) =
           Some (Some (if mode = str ''default'' then str ''plan''
                       else if mode = str ''plan'' then str ''acceptEdits''
                       else if mode = str ''acceptEdits'' then str ''bypassPermissions''
                       else str ''default''))
       \<and> (mode \<notin> set modeOrder \<longrightarrow>
            modeSelected (onKeyDown opts now e) = Some (Some (str ''default'')))
       \<and> preventDefault (onKeyDown opts now e) \<and> stopPropagation (onKeyDown opts now e)"
proof -
  have "onKeyDown opts now e = modeStage opts now e"
    using assms(8-11) tab_not_cursor_movement [OF assms(1)] by (simp add: onKeyDown_def)
  moreover have "givenMode opts = Some mode"
    using assms(6,7) by (simp add: givenMode_def)
  ultimately have "onKeyDown opts now e =
      (untouched opts)\<lparr>preventDefault := True, stopPropagation := True,
        modeSelected := Some (nextMode mode)\<rparr>"
    using assms(1-5) by (simp add: modeStage_def)
  then show ?thesis
    by (auto simp: nextMode_cases modeOrder_def)
qed

theorem shift_tab_selects_next_mode_witness:
  "key shiftTabEvent = str ''Tab'' \<and> shiftKey shiftTabEvent
   \<and> \<not> isIMEComposing idleOptions shiftTabEvent
   \<and> permissionMode idleOptions = Some (str ''plan'')
   \<and> modeSelected (onKeyDown idleOptions 5000 shiftTabEvent) = Some (Some (str ''acceptEdits''))
   \<and> str ''yolo'' \<notin> set modeOrder
   \<and> modeSelected (onKeyDown (idleOptions\<lparr>permissionMode := Some (str ''yolo'')\<rparr>) 5000
        shiftTabEvent) = Some (Some (str ''default''))"
proof -
  let ?yolo = "idleOptions\<lparr>permissionMode := Some (str ''yolo'')\<rparr>"
  have ev: "key shiftTabEvent = str ''Tab''" "shiftKey shiftTabEvent"
    by (simp_all add: shiftTabEvent_def)
  have plan: "str ''plan'' \<noteq> []" and yolo: "str ''yolo'' \<noteq> []"
    by (simp_all add: str_def)
  have outside: "str ''yolo'' \<notin> set modeOrder" by (simp add: modeOrder_def str_def)
  have quiet: "\<not> isIMEComposing idleOptions shiftTabEvent"
      "\<not> isIMEComposing ?yolo shiftTabEvent"
    by (simp_all add: isIMEComposing_def idleOptions_def shiftTabEvent_def)
  have given: "currentProvider idleOptions = Some (str ''claude'')" "onModeSelect idleOptions"
      "permissionMode idleOptions = Some (str ''plan'')"
      "currentProvider ?yolo = Some (str ''claude'')" "onModeSelect ?yolo"
      "permissionMode ?yolo = Some (str ''yolo'')"
    by (simp_all add: idleOptions_def)
  have passes: "\<not> handleMacCursorMovement idleOptions shiftTabEvent"
      "\<not> handledBy (fileCompletion idleOptions) shiftTabEvent"
      "\<not> handledBy (commandCompletion idleOptions) shiftTabEvent"
      "\<not> handledBy (agentCompletion idleOptions) shiftTabEvent"
      "\<not> handleMacCursorMovement ?yolo shiftTabEvent"
      "\<not> handledBy (fileCompletion ?yolo) shiftTabEvent"
      "\<not> handledBy (commandCompletion ?yolo) shiftTabEvent"
      "\<not> handledBy (agentCompletion ?yolo) shiftTabEvent"
    by (simp_all add: idleOptions_def handledBy_def closedCompletion_def)
  have next_of_plan: "(if str ''plan'' = str ''default'' then str ''plan''
       else if str ''plan'' = str ''plan'' then str ''acceptEdits''
       else if str ''plan'' = str ''acceptEdits'' then str ''bypassPermissions''
       else str ''default'') = str ''acceptEdits''"
    by (simp add: str_def)
  have a: "modeSelected (onKeyDown idleOptions 5000 shiftTabEvent)
      = Some (Some (str ''acceptEdits''))"
    using shift_tab_selects_next_mode [OF ev quiet(1) given(1-3) plan passes(1-4), of 5000]
    by (simp only: next_of_plan)
  have b: "modeSelected (onKeyDown ?yolo 5000 shiftTabEvent) = Some (Some (str ''default''))"
    using shift_tab_selects_next_mode [OF ev quiet(2) given(4-6) yolo passes(5-8), of 5000]
      outside
    by blast
  show ?thesis
    using a b ev outside quiet(1) given(3) by simp
qed

text \<open>
  Against C9 as it is stated: with the file completion popup open and taking the key,
  the same Shift+Tab never reaches the mode switch and the callback is not called.
\<close>

theorem shift_tab_selects_next_mode_counterexample:
  "key shiftTabEvent = str ''Tab'' \<and> shiftKey shiftTabEvent
   \<and> \<not> isIMEComposing (idleOptions\<lparr>fileCompletion := openCompletion\<rparr>) shiftTabEvent
   \<and> currentProvider (idleOptions\<lparr>fileCompletion := openCompletion\<rparr>) = Some (str ''claude'')
   \<and> onModeSelect (idleOptions\<lparr>fileCompletion := openCompletion\<rparr>)
   \<and> permissionMode (idleOptions\<lparr>fileCompletion := openCompletion\<rparr>) = Some (str ''plan'')
   \<and> modeSelected (onKeyDown (idleOptions\<lparr>fileCompletion := openCompletion\<rparr>) 5000
        shiftTabEvent) = None"
  by (simp add: onKeyDown_def isCursorMovementKey_def handledBy_def consumedByCompletion_def
      untouched_def isIMEComposing_def idleOptions_def shiftTabEvent_def openCompletion_def
      str_def)

section \<open>Properties of the API key preview\<close>

lemma repeat_bullet: "repeat bullet n = replicate n 0x2022"
  by (induction n) (simp_all add: repeat_def bullet_def)

text \<open>
  C10. With the key hidden, the preview of a key of more than 10 code units is its first
  8 code units, 8 bullets and its last 4 code units, so two such keys with the same first
  8 and last 4 have the same preview; the preview of a non-empty key of at most 10 code
  units is as many bullets as the key is long.
\<close>

theorem getApiKeyPreview_masks:
  "(10 < length k \<longrightarrow>
      getApiKeyPreview False k = take 8 k @ replicate 8 0x2022 @ drop (length k - 4) k)
   \<and> (10 < length k \<and> 10 < length k' \<and> take 8 k = take 8 k'
        \<and> drop (length k - 4) k = drop (length k' - 4) k' \<longrightarrow>
        getApiKeyPreview False k = getApiKeyPreview False k')
   \<and> (k \<noteq> [] \<and> length k \<le> 10 \<longrightarrow>
        getApiKeyPreview False k = replicate (length k) 0x2022)"
  by (auto simp: getApiKeyPreview_def repeat_bullet slice_to_def slice_last_def)

theorem getApiKeyPreview_masks_witness:
  "10 < length keyA \<and> 10 < length keyB \<and> keyA \<noteq> keyB
   \<and> take 8 keyA = take 8 keyB
   \<and> drop (length keyA - 4) keyA = drop (length keyB - 4) keyB
   \<and> getApiKeyPreview False keyA = str ''sk-ant-0'' @ replicate 8 0x2022 @ str ''cdef''
   \<and> getApiKeyPreview False keyA = getApiKeyPreview False keyB
   \<and> str ''abc'' \<noteq> [] \<and> length (str ''abc'') \<le> 10
   \<and> getApiKeyPreview False (str ''abc'') = [0x2022, 0x2022, 0x2022]"
  using getApiKeyPreview_masks [of keyA keyB] getApiKeyPreview_masks [of "str ''abc''" keyB]
  by (simp add: keyA_def keyB_def str_def getApiKeyPreview_def repeat_bullet slice_to_def
      slice_last_def)

text \<open>
  Against C10 as it is stated: the empty key has length at most 10, and its preview is
  the placeholder of an unset key, not the empty run of bullets.
\<close>

theorem getApiKeyPreview_masks_counterexample:
  "length ([] :: jsstring) \<le> 10
   \<and> getApiKeyPreview False [] = notConfigured
   \<and> getApiKeyPreview False [] \<noteq> replicate (length ([] :: jsstring)) 0x2022"
  by (simp add: getApiKeyPreview_def notConfigured_def)

end
